theory Spec2Isabelle
  imports Complex_Main
begin

section \<open>Electrostatics widget: data model\<close>

text \<open>
  The widget keeps its charges in one array, in creation order. A charge is
  \<open>{ id, x, y, q }\<close>: a unique handle, a position and a signed magnitude.
  Coordinates and magnitudes of a well-formed charge are finite numbers, modelled as reals.
\<close>

record charge =
  cid :: nat
  cx :: real
  cy :: real
  cq :: real

text \<open>\<open>Math.hypot(a, b)\<close> on finite arguments.\<close>

definition hypot :: "real \<Rightarrow> real \<Rightarrow> real" where
  "hypot a b = sqrt (a\<^sup>2 + b\<^sup>2)"

section \<open>Interaction controller: hit-testing\<close>

text \<open>
  \<^verbatim>\<open>
  function pickCharge(x, y) {
    const hitRadius = 'ontouchstart' in window ? 20 : 14; // Larger on touch devices
    for (let i = charges.length - 1; i >= 0; i--) {
      const c = charges[i];
      if (Math.hypot(x - c.x, y - c.y) <= hitRadius) return c.id;
    }
    return null;
  }
  \<close>
  The only input besides the point and the charge array is whether the host window has an
  \<open>ontouchstart\<close> property; it is the first argument of the model.
\<close>

definition hitRadius :: "bool \<Rightarrow> real" where
  "hitRadius ontouchstart_in_window = (if ontouchstart_in_window then 20 else 14)"

text \<open>
  The loop counts \<open>i\<close> down from \<open>charges.length - 1\<close> to \<open>0\<close>. The model's counter is
  \<open>i + 1\<close>, so that the loop's exit \<open>i < 0\<close> is the counter \<open>0\<close>; \<open>return null\<close> is
  \<open>None\<close>.
\<close>

fun pickLoop :: "real \<Rightarrow> real \<Rightarrow> real \<Rightarrow> charge list \<Rightarrow> nat \<Rightarrow> nat option" where
  "pickLoop r x y charges 0 = None"
| "pickLoop r x y charges (Suc i) =
     (if hypot (x - cx (charges ! i)) (y - cy (charges ! i)) \<le> r
      then Some (cid (charges ! i))
      else pickLoop r x y charges i)"

definition pickCharge :: "bool \<Rightarrow> real \<Rightarrow> real \<Rightarrow> charge list \<Rightarrow> nat option" where
  "pickCharge ontouchstart_in_window x y charges =
     pickLoop (hitRadius ontouchstart_in_window) x y charges (length charges)"

text \<open>
  The unified pointer handlers are registered for mouse and for touch events alike
  (\<open>mousedown\<close> and \<open>touchstart\<close> both run \<open>handlePointerDown\<close>), and the coordinates
  they extract are all that reaches \<open>pickCharge(x, y)\<close>. A pointer-down is therefore a
  point together with the input source it came from, and its hit test reads the point only.
\<close>

datatype input_source = MouseInput | TouchInput

record pointer_down =
  source :: input_source
  px :: real
  py :: real

definition pointerDownHit :: "bool \<Rightarrow> pointer_down \<Rightarrow> charge list \<Rightarrow> nat option" where
  "pointerDownHit ontouchstart_in_window e charges =
     pickCharge ontouchstart_in_window (px e) (py e) charges"

text \<open>Distance from a point to a charge's centre, as the loop computes it.\<close>

definition distTo :: "real \<Rightarrow> real \<Rightarrow> charge \<Rightarrow> real" where
  "distTo x y c = hypot (x - cx c) (y - cy c)"

section \<open>JavaScript numbers at the settings boundary\<close>

text \<open>
  \<open>parseFloat\<close> of a text field yields a finite number, \<open>Infinity\<close>, \<open>-Infinity\<close> or
  \<open>NaN\<close>. Rounding plays no part in what follows, so the finite numbers are reals.
\<close>

datatype jsnum = Num real | PosInfinity | NegInfinity | NaN

fun isFinite :: "jsnum \<Rightarrow> bool" where
  "isFinite (Num r) = True"
| "isFinite PosInfinity = False"
| "isFinite NegInfinity = False"
| "isFinite NaN = False"

text \<open>Truthiness of a number: \<open>0\<close> and \<open>NaN\<close> are falsy; \<open>a || b\<close> is \<open>a\<close> when \<open>a\<close> is truthy.\<close>

fun truthy :: "jsnum \<Rightarrow> bool" where
  "truthy (Num r) = (r \<noteq> 0)"
| "truthy PosInfinity = True"
| "truthy NegInfinity = True"
| "truthy NaN = False"

definition jsOr :: "jsnum \<Rightarrow> jsnum \<Rightarrow> jsnum" where
  "jsOr a b = (if truthy a then a else b)"

text \<open>\<open>Math.min(a, b)\<close>: \<open>NaN\<close> if either argument is, else the smaller one.\<close>

fun jsMin :: "jsnum \<Rightarrow> jsnum \<Rightarrow> jsnum" where
  "jsMin NaN b = NaN"
| "jsMin a NaN = NaN"
| "jsMin NegInfinity b = NegInfinity"
| "jsMin a NegInfinity = NegInfinity"
| "jsMin PosInfinity b = b"
| "jsMin a PosInfinity = a"
| "jsMin (Num a) (Num b) = Num (min a b)"

section \<open>Heatmap rasterizer: the clip value\<close>

text \<open>
  \<open>computeHeatmap()\<close> reads the manual range as
  \<^verbatim>\<open>parseFloat(displayRangeEl2.value)||40\<close>
  and, in the branch taken with auto-scale off, sets
  \<^verbatim>\<open>Vclip = userRange; // User's choice should be respected\<close>
  The argument \<open>parsed\<close> is the result of \<open>parseFloat\<close> on the range field, \<open>lastAmp\<close> the
  function's variable holding the current maximum field value, and \<open>autoClip\<close> the value
  that the other branch, which the source does not show, assigns.
\<close>

definition userRange :: "jsnum \<Rightarrow> jsnum" where
  "userRange parsed = jsOr parsed (Num 40)"

definition computeHeatmap_Vclip :: "bool \<Rightarrow> jsnum \<Rightarrow> jsnum \<Rightarrow> jsnum \<Rightarrow> jsnum" where
  "computeHeatmap_Vclip autoScale autoClip lastAmp parsed =
     (if autoScale then autoClip else userRange parsed)"

text \<open>
  The same branch as it was before the range-capping defect was fixed:
  \<^verbatim>\<open>Vclip = Math.min(lastAmp, userRange);\<close>
\<close>

definition computeHeatmap_Vclip_before :: "bool \<Rightarrow> jsnum \<Rightarrow> jsnum \<Rightarrow> jsnum \<Rightarrow> jsnum" where
  "computeHeatmap_Vclip_before autoScale autoClip lastAmp parsed =
     (if autoScale then autoClip else jsMin lastAmp (userRange parsed))"

section \<open>Field solver\<close>

text \<open>The source's softening constant: \<^verbatim>\<open>const soften = 0.01;\<close>\<close>

definition soften :: real where
  "soften = 1 / 100"

text \<open>
  Modelled from the spec: the softened distance \<open>r\<^sub>i = max (distance p p\<^sub>i) soften\<close> of
  the field solver, which is not among the source files.
\<close>

definition softDist :: "real \<Rightarrow> real \<Rightarrow> charge \<Rightarrow> real" where
  "softDist x y c = max (distTo x y c) soften"

text \<open>
  Modelled from the spec: the field solver's summation, which is not among the source
  files. Each charge contributes \<open>V\<^sub>i = k q\<^sub>i / r\<^sub>i\<close> and
  \<open>E\<^sub>i = k q\<^sub>i (p - p\<^sub>i) / r\<^sub>i\<^sup>3\<close>, and the contributions are accumulated
  in scene order. The constant \<open>k\<close> is a parameter; the accumulator and the result are
  \<open>(V, E\<^sub>x, E\<^sub>y)\<close>.
\<close>

fun fieldLoop :: "real \<Rightarrow> real \<Rightarrow> real \<Rightarrow> charge list \<Rightarrow> real \<times> real \<times> real \<Rightarrow> real \<times> real \<times> real"
  where
  "fieldLoop k x y [] acc = acc"
| "fieldLoop k x y (c # cs) (v, ex, ey) =
     fieldLoop k x y cs
       (v + k * cq c / softDist x y c,
        ex + k * cq c * (x - cx c) / (softDist x y c) ^ 3,
        ey + k * cq c * (y - cy c) / (softDist x y c) ^ 3)"

text \<open>
  Modelled from the spec: the field solver's entry point, which is not among the source
  files; given the charge set and a query point it returns the potential and the field.
\<close>

definition fieldAt :: "real \<Rightarrow> real \<Rightarrow> real \<Rightarrow> charge list \<Rightarrow> real \<times> real \<times> real" where
  "fieldAt k x y cs = fieldLoop k x y cs (0, 0, 0)"

section \<open>Scene and its persistence contract\<close>

text \<open>
  A scene is the ordered sequence of charges, the selected handle (which may not resolve
  to a live charge) and the display settings.
\<close>

record scene =
  charges :: "charge list"
  selectedId :: "nat option"
  autoScale :: bool
  rangeV :: real

text \<open>
  Modelled from the spec: the stored form of a scene, the mapping
  \<open>{ charges: [{x,y,q}, ...], autoScale: bool, rangeV: number }\<close>. Saving and loading
  belong to the persistence collaborator and are not among the source files. The numeric
  fields of a stored mapping need not be finite.
\<close>

record saved_charge =
  sx :: jsnum
  sy :: jsnum
  sq :: jsnum

record saved_scene =
  s_charges :: "saved_charge list"
  s_autoScale :: bool
  s_rangeV :: jsnum

text \<open>
  Modelled from the spec: serialization of a scene to the stored mapping, which is not
  among the source files. Handles and the selection are not stored.
\<close>

definition saveCharge :: "charge \<Rightarrow> saved_charge" where
  "saveCharge c = \<lparr>sx = Num (cx c), sy = Num (cy c), sq = Num (cq c)\<rparr>"

definition saveScene :: "scene \<Rightarrow> saved_scene" where
  "saveScene s =
     \<lparr>s_charges = map saveCharge (charges s), s_autoScale = autoScale s,
      s_rangeV = Num (rangeV s)\<rparr>"

text \<open>
  Modelled from the spec: the empty default scene that loading falls back to, which is
  not among the source files. It has no charges and no selection; its display settings are
  auto-scale on and the range \<open>40\<close> that \<open>computeHeatmap()\<close> defaults to.
\<close>

definition defaultScene :: scene where
  "defaultScene = \<lparr>charges = [], selectedId = None, autoScale = True, rangeV = 40\<rparr>"

text \<open>
  Modelled from the spec: loading, which is not among the source files. It validates that
  every numeric field is finite, gives each charge a handle (its index), and falls back to
  the default scene as a whole when a field is not finite.
\<close>

fun loadCharge :: "nat \<Rightarrow> saved_charge \<Rightarrow> charge option" where
  "loadCharge i s =
     (case (sx s, sy s, sq s) of
        (Num x, Num y, Num q) \<Rightarrow> Some \<lparr>cid = i, cx = x, cy = y, cq = q\<rparr>
      | _ \<Rightarrow> None)"

fun loadCharges :: "nat \<Rightarrow> saved_charge list \<Rightarrow> charge list option" where
  "loadCharges i [] = Some []"
| "loadCharges i (s # ss) =
     (case loadCharge i s of
        None \<Rightarrow> None
      | Some c \<Rightarrow> (case loadCharges (Suc i) ss of None \<Rightarrow> None | Some cs \<Rightarrow> Some (c # cs)))"

definition loadScene :: "saved_scene \<Rightarrow> scene" where
  "loadScene p =
     (case (loadCharges 0 (s_charges p), s_rangeV p) of
        (Some cs, Num r) \<Rightarrow>
          \<lparr>charges = cs, selectedId = None, autoScale = s_autoScale p, rangeV = r\<rparr>
      | _ \<Rightarrow> defaultScene)"

text \<open>
  What a user can observe of a scene: the charges' positions and magnitudes, in creation
  order, and the display settings.
\<close>

definition observable :: "scene \<Rightarrow> (real \<times> real \<times> real) list \<times> bool \<times> real" where
  "observable s = (map (\<lambda>c. (cx c, cy c, cq c)) (charges s), autoScale s, rangeV s)"

text \<open>A stored mapping is malformed when one of its numeric fields is not finite.\<close>

definition finiteCharge :: "saved_charge \<Rightarrow> bool" where
  "finiteCharge s = (isFinite (sx s) \<and> isFinite (sy s) \<and> isFinite (sq s))"

definition malformed :: "saved_scene \<Rightarrow> bool" where
  "malformed p = (list_ex (\<lambda>s. \<not> finiteCharge s) (s_charges p) \<or> \<not> isFinite (s_rangeV p))"

section \<open>Hit-testing: auxiliary facts\<close>

lemma hypot_le_iff: "0 \<le> r \<Longrightarrow> hypot a b \<le> r \<longleftrightarrow> a\<^sup>2 + b\<^sup>2 \<le> r\<^sup>2"
  unfolding hypot_def using real_sqrt_le_iff [of "a\<^sup>2 + b\<^sup>2" "r\<^sup>2"] by simp

lemma hypot_zero_right [simp]: "hypot a 0 = \<bar>a\<bar>"
  by (simp add: hypot_def)

lemma pickLoop_None_iff:
  "n \<le> length cs \<Longrightarrow>
   pickLoop r x y cs n = None \<longleftrightarrow> (\<forall>i<n. r < distTo x y (cs ! i))"
proof (induction n)
  case 0
  then show ?case by simp
next
  case (Suc n)
  then show ?case by (auto simp: distTo_def less_Suc_eq not_le)
qed

lemma pickLoop_topmost:
  assumes "i < n" "distTo x y (cs ! i) \<le> r"
    and "\<forall>j. i < j \<and> j < n \<longrightarrow> r < distTo x y (cs ! j)"
  shows "pickLoop r x y cs n = Some (cid (cs ! i))"
  using assms
proof (induction n)
  case 0
  then show ?case by simp
next
  case (Suc n)
  show ?case
  proof (cases "i = n")
    case True
    with Suc.prems show ?thesis by (simp add: distTo_def)
  next
    case False
    with Suc.prems have lt: "i < n" by simp
    from Suc.prems lt have far: "r < distTo x y (cs ! n)" by simp
    from Suc.prems have "\<forall>j. i < j \<and> j < n \<longrightarrow> r < distTo x y (cs ! j)" by simp
    with Suc.IH lt Suc.prems(2)
    have "pickLoop r x y cs n = Some (cid (cs ! i))" by simp
    with far show ?thesis by (simp add: distTo_def)
  qed
qed

section \<open>Hit-testing: which charge is picked\<close>

text \<open>
  Claim C5. Among the charges within the hit radius of the pointer-down point, the one
  created last wins: the loop runs from the newest charge to the oldest and returns at the
  first one within the radius. Here \<open>i\<close> is within the radius and no charge created after
  \<open>i\<close> is; charges created before \<open>i\<close> may be within the radius as well.
\<close>

theorem pickCharge_most_recent_wins:
  assumes "i < length cs"
    and "distTo x y (cs ! i) \<le> hitRadius w"
    and "\<forall>j. i < j \<and> j < length cs \<longrightarrow> hitRadius w < distTo x y (cs ! j)"
  shows "pickCharge w x y cs = Some (cid (cs ! i))"
  unfolding pickCharge_def using assms by (rule pickLoop_topmost)

theorem pickCharge_most_recent_wins_witness:
  "(1::nat) < length [\<lparr>cid = 1, cx = 0, cy = 0, cq = 1\<rparr>, \<lparr>cid = 2, cx = 5, cy = 0, cq = -1\<rparr>]
   \<and> distTo 3 0 ([\<lparr>cid = 1, cx = 0, cy = 0, cq = 1\<rparr>, \<lparr>cid = 2, cx = 5, cy = 0, cq = -1\<rparr>] ! 0)
       \<le> hitRadius False
   \<and> distTo 3 0 ([\<lparr>cid = 1, cx = 0, cy = 0, cq = 1\<rparr>, \<lparr>cid = 2, cx = 5, cy = 0, cq = -1\<rparr>] ! 1)
       \<le> hitRadius False
   \<and> pickCharge False 3 0 [\<lparr>cid = 1, cx = 0, cy = 0, cq = 1\<rparr>, \<lparr>cid = 2, cx = 5, cy = 0, cq = -1\<rparr>]
       = Some 2"
  using pickCharge_most_recent_wins
    [of 1 "[\<lparr>cid = 1, cx = 0, cy = 0, cq = 1\<rparr>, \<lparr>cid = 2, cx = 5, cy = 0, cq = -1\<rparr>]" 3 0 False]
  by (simp add: distTo_def hitRadius_def)

text \<open>A hit is registered exactly when some charge is within the radius.\<close>

lemma pickCharge_hit_iff:
  "pickCharge w x y cs \<noteq> None \<longleftrightarrow> (\<exists>c\<in>set cs. distTo x y c \<le> hitRadius w)"
proof -
  have "pickCharge w x y cs \<noteq> None \<longleftrightarrow> (\<exists>i<length cs. distTo x y (cs ! i) \<le> hitRadius w)"
    unfolding pickCharge_def by (simp add: pickLoop_None_iff not_less)
  also have "\<dots> \<longleftrightarrow> (\<exists>c\<in>set cs. distTo x y c \<le> hitRadius w)"
    by (metis in_set_conv_nth)
  finally show ?thesis .
qed

text \<open>
  Claim C10. The hit radius depends on the host only: \<open>20\<close> when the window has
  \<open>ontouchstart\<close>, \<open>14\<close> otherwise. Whatever input source a pointer-down comes from,
  it registers a hit exactly when some charge is within that radius of its point.
\<close>

theorem pickCharge_radius_from_host:
  "hitRadius True = 20 \<and> hitRadius False = 14
   \<and> pointerDownHit w \<lparr>source = s, px = x, py = y\<rparr> cs
       = pickLoop (if w then 20 else 14) x y cs (length cs)
   \<and> (pointerDownHit True \<lparr>source = s, px = x, py = y\<rparr> cs \<noteq> None
        \<longleftrightarrow> (\<exists>c\<in>set cs. distTo x y c \<le> 20))
   \<and> (pointerDownHit False \<lparr>source = s, px = x, py = y\<rparr> cs \<noteq> None
        \<longleftrightarrow> (\<exists>c\<in>set cs. distTo x y c \<le> 14))"
  using pickCharge_hit_iff [of True x y cs] pickCharge_hit_iff [of False x y cs]
  by (simp add: pointerDownHit_def pickCharge_def hitRadius_def)

theorem pickCharge_radius_from_host_witness:
  "pointerDownHit True \<lparr>source = MouseInput, px = 17, py = 0\<rparr> [\<lparr>cid = 1, cx = 0, cy = 0, cq = 1\<rparr>]
     = pickLoop 20 17 0 [\<lparr>cid = 1, cx = 0, cy = 0, cq = 1\<rparr>] 1
   \<and> pointerDownHit True \<lparr>source = MouseInput, px = 17, py = 0\<rparr> [\<lparr>cid = 1, cx = 0, cy = 0, cq = 1\<rparr>]
     \<noteq> None
   \<and> pointerDownHit False \<lparr>source = TouchInput, px = 17, py = 0\<rparr> [\<lparr>cid = 1, cx = 0, cy = 0, cq = 1\<rparr>]
     = None"
  using pickCharge_radius_from_host
    [of True MouseInput 17 0 "[\<lparr>cid = 1, cx = 0, cy = 0, cq = 1\<rparr>]"]
    pickCharge_radius_from_host
    [of False TouchInput 17 0 "[\<lparr>cid = 1, cx = 0, cy = 0, cq = 1\<rparr>]"]
  by (simp add: distTo_def)

section \<open>Touch and mouse hit radii\<close>

text \<open>
  Claim C4 as stated fails: on a host with touch support, a pointer-down that comes from
  the mouse at distance \<open>17\<close> from a charge, between the two radii, registers a hit.
\<close>

theorem touch_vs_mouse_counterexample:
  "distTo 17 0 \<lparr>cid = 1, cx = 0, cy = 0, cq = 1\<rparr> = 17
   \<and> hitRadius False < 17 \<and> 17 \<le> hitRadius True
   \<and> pointerDownHit True \<lparr>source = MouseInput, px = 17, py = 0\<rparr> [\<lparr>cid = 1, cx = 0, cy = 0, cq = 1\<rparr>]
       = Some 1"
  by (simp add: distTo_def hitRadius_def pointerDownHit_def pickCharge_def)

text \<open>
  Claim C4, amended. Let a charge lie at a distance between \<open>14\<close> and \<open>20\<close> from the
  pointer-down point, no charge created after it be within \<open>20\<close>, and no charge at all be
  within \<open>14\<close>. Then on a host with touch support the pointer-down hits that charge, on a
  host without it the pointer-down hits nothing, in both cases whatever the input source;
  and the larger radius is at least \<open>1.4\<close> times the smaller one.
\<close>

theorem hit_between_radii_by_host:
  assumes "i < length cs"
    and "14 < distTo x y (cs ! i)" and "distTo x y (cs ! i) \<le> 20"
    and "\<forall>j. i < j \<and> j < length cs \<longrightarrow> 20 < distTo x y (cs ! j)"
    and "\<forall>j<length cs. 14 < distTo x y (cs ! j)"
  shows "pointerDownHit True \<lparr>source = s, px = x, py = y\<rparr> cs = Some (cid (cs ! i))
       \<and> pointerDownHit False \<lparr>source = s, px = x, py = y\<rparr> cs = None
       \<and> 1.4 * hitRadius False \<le> hitRadius True"
proof -
  have "pickLoop 20 x y cs (length cs) = Some (cid (cs ! i))"
    using assms(1,3,4) by (intro pickLoop_topmost) auto
  moreover have "pickLoop 14 x y cs (length cs) = None"
    using assms(5) by (simp add: pickLoop_None_iff)
  ultimately show ?thesis
    by (simp add: pointerDownHit_def pickCharge_def hitRadius_def)
qed

theorem hit_between_radii_by_host_witness:
  "(0::nat) < length [\<lparr>cid = 1, cx = 0, cy = 0, cq = 1\<rparr>]
   \<and> 14 < distTo 17 0 ([\<lparr>cid = 1, cx = 0, cy = 0, cq = 1\<rparr>] ! 0)
   \<and> distTo 17 0 ([\<lparr>cid = 1, cx = 0, cy = 0, cq = 1\<rparr>] ! 0) \<le> 20
   \<and> pointerDownHit True \<lparr>source = MouseInput, px = 17, py = 0\<rparr> [\<lparr>cid = 1, cx = 0, cy = 0, cq = 1\<rparr>]
       = Some 1
   \<and> pointerDownHit False \<lparr>source = TouchInput, px = 17, py = 0\<rparr> [\<lparr>cid = 1, cx = 0, cy = 0, cq = 1\<rparr>]
       = None"
proof -
  let ?cs = "[\<lparr>cid = 1, cx = 0, cy = 0, cq = 1\<rparr>]"
  have h1: "(0::nat) < length ?cs" by simp
  have h2: "14 < distTo 17 0 (?cs ! 0)" by (simp add: distTo_def)
  have h3: "distTo 17 0 (?cs ! 0) \<le> 20" by (simp add: distTo_def)
  have h4: "\<forall>j. 0 < j \<and> j < length ?cs \<longrightarrow> 20 < distTo 17 0 (?cs ! j)" by simp
  have h5: "\<forall>j<length ?cs. 14 < distTo 17 0 (?cs ! j)" by (simp add: distTo_def)
  show ?thesis
    using h1 h2 h3 hit_between_radii_by_host [OF h1 h2 h3 h4 h5, of MouseInput]
      hit_between_radii_by_host [OF h1 h2 h3 h4 h5, of TouchInput]
    by simp
qed

section \<open>Heatmap clip value\<close>

text \<open>
  Claim C1. With auto-scale off and a positive manual range \<open>R\<close>, the clip value of the
  pass is \<open>R\<close>, whatever maximum magnitude \<open>lastAmp\<close> the pass observed: larger than \<open>R\<close>,
  smaller, infinite or not a number.
\<close>

theorem manual_range_used_exactly:
  "0 < R \<Longrightarrow> computeHeatmap_Vclip False autoClip lastAmp (Num R) = Num R"
  by (simp add: computeHeatmap_Vclip_def userRange_def jsOr_def)

theorem manual_range_used_exactly_witness:
  "(0::real) < 50 \<and> (0::real) < 5
   \<and> computeHeatmap_Vclip False (Num 10) (Num 10) (Num 50) = Num 50
   \<and> computeHeatmap_Vclip False (Num 10) (Num 10) (Num 5) = Num 5"
  using manual_range_used_exactly [of 50 "Num 10" "Num 10"]
    manual_range_used_exactly [of 5 "Num 10" "Num 10"]
  by simp

text \<open>The code before the fix capped the manual range at the observed maximum.\<close>

lemma range_cap_before_fix:
  "computeHeatmap_Vclip_before False autoClip (Num 10) (Num 50) = Num 10"
  by (simp add: computeHeatmap_Vclip_before_def userRange_def jsOr_def)

text \<open>
  Claim C6 asks that a non-finite setting be rejected and the prior value kept. The range
  read by \<open>computeHeatmap()\<close> is not validated: with auto-scale off, an infinite range
  becomes the clip value, and a range that does not parse becomes \<open>40\<close>, whatever the
  range was before.
\<close>

theorem nonfinite_range_applied:
  "\<not> isFinite PosInfinity
   \<and> computeHeatmap_Vclip False autoClip lastAmp PosInfinity = PosInfinity
   \<and> computeHeatmap_Vclip False autoClip lastAmp NaN = Num 40"
  by (simp add: computeHeatmap_Vclip_def userRange_def jsOr_def)

section \<open>Field solver: superposition and bounds\<close>

lemma soften_pos: "0 < soften"
  by (simp add: soften_def)

lemma softDist_ge: "soften \<le> softDist x y c"
  by (simp add: softDist_def)

lemma softDist_pos: "0 < softDist x y c"
  using soften_pos softDist_ge [of x y c] by linarith

lemma abs_dx_le_hypot: "\<bar>a\<bar> \<le> hypot a b"
  unfolding hypot_def by (rule real_le_rsqrt) (simp add: power2_eq_square)

lemma abs_dx_le_softDist: "\<bar>x - cx c\<bar> \<le> softDist x y c"
  using abs_dx_le_hypot [of "x - cx c" "y - cy c"] by (simp add: softDist_def distTo_def)

lemma abs_dy_le_softDist: "\<bar>y - cy c\<bar> \<le> softDist x y c"
proof -
  have "hypot (x - cx c) (y - cy c) = hypot (y - cy c) (x - cx c)"
    by (simp add: hypot_def add.commute)
  then show ?thesis
    using abs_dx_le_hypot [of "y - cy c" "x - cx c"] by (simp add: softDist_def distTo_def)
qed

lemma fieldLoop_sums:
  "fieldLoop k x y cs (v, ex, ey) =
     (v + (\<Sum>c\<leftarrow>cs. k * cq c / softDist x y c),
      ex + (\<Sum>c\<leftarrow>cs. k * cq c * (x - cx c) / (softDist x y c) ^ 3),
      ey + (\<Sum>c\<leftarrow>cs. k * cq c * (y - cy c) / (softDist x y c) ^ 3))"
  by (induction cs arbitrary: v ex ey) (simp_all add: add.assoc)

text \<open>One charge's potential is at most k |q| / soften in absolute value.\<close>

lemma potential_term_bound:
  "\<bar>k * q / softDist x y c\<bar> \<le> \<bar>k\<bar> * \<bar>q\<bar> / soften"
proof -
  have "\<bar>k * q / softDist x y c\<bar> = (\<bar>k\<bar> * \<bar>q\<bar>) / softDist x y c"
    using softDist_pos [of x y c] by (simp add: abs_mult)
  also have "\<dots> \<le> (\<bar>k\<bar> * \<bar>q\<bar>) / soften"
    using softDist_ge [of x y c] soften_pos by (intro divide_left_mono) (simp_all add: softDist_pos)
  finally show ?thesis .
qed

lemma field_term_bound:
  assumes "\<bar>d\<bar> \<le> softDist x y c"
  shows "\<bar>k * q * d / (softDist x y c) ^ 3\<bar> \<le> \<bar>k\<bar> * \<bar>q\<bar> / soften\<^sup>2"
proof -
  let ?r = "softDist x y c"
  have r: "0 < ?r" by (rule softDist_pos)
  have "\<bar>k * q * d / ?r ^ 3\<bar> = (\<bar>k\<bar> * \<bar>q\<bar>) * \<bar>d\<bar> / ?r ^ 3"
    using r by (simp add: abs_mult)
  also have "\<dots> \<le> (\<bar>k\<bar> * \<bar>q\<bar>) * ?r / ?r ^ 3"
    using assms r by (intro divide_right_mono mult_left_mono) simp_all
  also have "\<dots> = (\<bar>k\<bar> * \<bar>q\<bar>) / ?r\<^sup>2"
    using r by (simp add: power3_eq_cube power2_eq_square)
  also have "\<dots> \<le> (\<bar>k\<bar> * \<bar>q\<bar>) / soften\<^sup>2"
  proof -
    have "soften\<^sup>2 \<le> ?r\<^sup>2"
      using softDist_ge [of x y c] soften_pos by (intro power_mono) simp_all
    then show ?thesis
      using soften_pos r by (intro divide_left_mono) simp_all
  qed
  finally show ?thesis .
qed

lemma abs_sum_list_bound:
  fixes f :: "'a \<Rightarrow> real"
  assumes "\<And>c. \<bar>f c\<bar> \<le> g c"
  shows "\<bar>\<Sum>c\<leftarrow>cs. f c\<bar> \<le> (\<Sum>c\<leftarrow>cs. g c)"
proof (induction cs)
  case Nil
  then show ?case by simp
next
  case (Cons c cs)
  have "\<bar>f c + (\<Sum>c\<leftarrow>cs. f c)\<bar> \<le> \<bar>f c\<bar> + \<bar>\<Sum>c\<leftarrow>cs. f c\<bar>" by (rule abs_triangle_ineq)
  with Cons assms [of c] show ?case by simp
qed

lemma sum_list_scaled:
  fixes a :: real
  shows "(\<Sum>c\<leftarrow>cs. \<bar>k\<bar> * \<bar>cq c\<bar> / a) = \<bar>k\<bar> * (\<Sum>c\<leftarrow>cs. \<bar>cq c\<bar>) / a"
  by (induction cs) (simp_all add: algebra_simps add_divide_distrib)

text \<open>
  Claim C3. The solver's result is the superposition, over the charges, of
  \<open>k q\<^sub>i / r\<^sub>i\<close> and \<open>k q\<^sub>i (p - p\<^sub>i) / r\<^sub>i\<^sup>3\<close>, where
  \<open>r\<^sub>i\<close> is the distance to the charge or the softening radius \<open>0.01\<close>, whichever is
  larger. No denominator vanishes: \<open>r\<^sub>i\<close> is at least the softening radius, and equals it
  at the charge's own centre. So the potential is bounded by \<open>|k| \<Sum>|q\<^sub>i| / soften\<close> and
  each field component by \<open>|k| \<Sum>|q\<^sub>i| / soften\<^sup>2\<close>, at every query point.
\<close>

theorem fieldAt_superposition:
  "fieldAt k x y cs =
     ((\<Sum>c\<leftarrow>cs. k * cq c / softDist x y c),
      (\<Sum>c\<leftarrow>cs. k * cq c * (x - cx c) / (softDist x y c) ^ 3),
      (\<Sum>c\<leftarrow>cs. k * cq c * (y - cy c) / (softDist x y c) ^ 3))
   \<and> softDist x y ch = max (hypot (x - cx ch) (y - cy ch)) soften
   \<and> 0 < soften \<and> soften \<le> softDist x y ch
   \<and> softDist (cx ch) (cy ch) ch = soften
   \<and> \<bar>fst (fieldAt k x y cs)\<bar> \<le> \<bar>k\<bar> * (\<Sum>c\<leftarrow>cs. \<bar>cq c\<bar>) / soften
   \<and> \<bar>fst (snd (fieldAt k x y cs))\<bar> \<le> \<bar>k\<bar> * (\<Sum>c\<leftarrow>cs. \<bar>cq c\<bar>) / soften\<^sup>2
   \<and> \<bar>snd (snd (fieldAt k x y cs))\<bar> \<le> \<bar>k\<bar> * (\<Sum>c\<leftarrow>cs. \<bar>cq c\<bar>) / soften\<^sup>2"
proof -
  have eq: "fieldAt k x y cs =
     ((\<Sum>c\<leftarrow>cs. k * cq c / softDist x y c),
      (\<Sum>c\<leftarrow>cs. k * cq c * (x - cx c) / (softDist x y c) ^ 3),
      (\<Sum>c\<leftarrow>cs. k * cq c * (y - cy c) / (softDist x y c) ^ 3))"
    by (simp add: fieldAt_def fieldLoop_sums)
  have centre: "softDist (cx ch) (cy ch) ch = soften"
    using soften_pos by (simp add: softDist_def distTo_def hypot_def)
  have v: "\<bar>\<Sum>c\<leftarrow>cs. k * cq c / softDist x y c\<bar> \<le> \<bar>k\<bar> * (\<Sum>c\<leftarrow>cs. \<bar>cq c\<bar>) / soften"
  proof -
    have "\<bar>\<Sum>c\<leftarrow>cs. k * cq c / softDist x y c\<bar> \<le> (\<Sum>c\<leftarrow>cs. \<bar>k\<bar> * \<bar>cq c\<bar> / soften)"
      by (rule abs_sum_list_bound) (rule potential_term_bound)
    then show ?thesis by (simp only: sum_list_scaled)
  qed
  have ex: "\<bar>\<Sum>c\<leftarrow>cs. k * cq c * (x - cx c) / (softDist x y c) ^ 3\<bar>
            \<le> \<bar>k\<bar> * (\<Sum>c\<leftarrow>cs. \<bar>cq c\<bar>) / soften\<^sup>2"
  proof -
    have "\<bar>\<Sum>c\<leftarrow>cs. k * cq c * (x - cx c) / (softDist x y c) ^ 3\<bar>
            \<le> (\<Sum>c\<leftarrow>cs. \<bar>k\<bar> * \<bar>cq c\<bar> / soften\<^sup>2)"
      by (rule abs_sum_list_bound) (rule field_term_bound, rule abs_dx_le_softDist)
    then show ?thesis by (simp only: sum_list_scaled)
  qed
  have ey: "\<bar>\<Sum>c\<leftarrow>cs. k * cq c * (y - cy c) / (softDist x y c) ^ 3\<bar>
            \<le> \<bar>k\<bar> * (\<Sum>c\<leftarrow>cs. \<bar>cq c\<bar>) / soften\<^sup>2"
  proof -
    have "\<bar>\<Sum>c\<leftarrow>cs. k * cq c * (y - cy c) / (softDist x y c) ^ 3\<bar>
            \<le> (\<Sum>c\<leftarrow>cs. \<bar>k\<bar> * \<bar>cq c\<bar> / soften\<^sup>2)"
      by (rule abs_sum_list_bound) (rule field_term_bound, rule abs_dy_le_softDist)
    then show ?thesis by (simp only: sum_list_scaled)
  qed
  show ?thesis
    using eq centre v ex ey soften_pos softDist_ge [of x y ch]
    by (simp add: softDist_def distTo_def)
qed

theorem fieldAt_superposition_witness:
  "fieldAt 1 0 0 [\<lparr>cid = 1, cx = 0, cy = 0, cq = 2\<rparr>] = (200, 0, 0)
   \<and> softDist 0 0 \<lparr>cid = 1, cx = 0, cy = 0, cq = 2\<rparr> = 1 / 100"
  using fieldAt_superposition [of 1 0 0 "[\<lparr>cid = 1, cx = 0, cy = 0, cq = 2\<rparr>]"
      "\<lparr>cid = 1, cx = 0, cy = 0, cq = 2\<rparr>"]
  by (simp add: softDist_def distTo_def soften_def)

section \<open>Persistence: round trip and malformed input\<close>

lemma loadCharge_saveCharge:
  "loadCharge i (saveCharge c) = Some \<lparr>cid = i, cx = cx c, cy = cy c, cq = cq c\<rparr>"
  by (simp add: saveCharge_def)

lemma loadCharges_saved:
  "\<exists>cs'. loadCharges i (map saveCharge cs) = Some cs'
         \<and> map (\<lambda>c. (cx c, cy c, cq c)) cs' = map (\<lambda>c. (cx c, cy c, cq c)) cs"
proof (induction cs arbitrary: i)
  case Nil
  then show ?case by simp
next
  case (Cons c cs)
  from Cons.IH [of "Suc i"] obtain cs' where
    "loadCharges (Suc i) (map saveCharge cs) = Some cs'"
    "map (\<lambda>c. (cx c, cy c, cq c)) cs' = map (\<lambda>c. (cx c, cy c, cq c)) cs"
    by blast
  then show ?case by (simp add: loadCharge_saveCharge del: loadCharge.simps)
qed

text \<open>
  Claim C8. Saving a scene and loading the stored mapping back gives a scene with the same
  charges (count, positions and magnitudes, in order) and the same display settings. A
  scene's numbers are reals, hence finite; the round trip does not need the range to be
  positive.
\<close>

theorem load_save_roundtrip:
  "observable (loadScene (saveScene s)) = observable s"
proof -
  obtain cs' where
    l: "loadCharges 0 (map saveCharge (charges s)) = Some cs'" and
    m: "map (\<lambda>c. (cx c, cy c, cq c)) cs' = map (\<lambda>c. (cx c, cy c, cq c)) (charges s)"
    using loadCharges_saved [of 0 "charges s"] by blast
  from l have "loadScene (saveScene s) =
      \<lparr>charges = cs', selectedId = None, autoScale = autoScale s, rangeV = rangeV s\<rparr>"
    by (simp add: loadScene_def saveScene_def)
  with m show ?thesis by (simp add: observable_def)
qed

theorem load_save_roundtrip_witness:
  "observable (loadScene (saveScene
      \<lparr>charges = [\<lparr>cid = 7, cx = 1, cy = 2, cq = 3\<rparr>, \<lparr>cid = 9, cx = 4, cy = 5, cq = -6\<rparr>],
       selectedId = Some 7, autoScale = False, rangeV = 25\<rparr>))
   = ([(1, 2, 3), (4, 5, -6)], False, 25)"
  using load_save_roundtrip
    [of "\<lparr>charges = [\<lparr>cid = 7, cx = 1, cy = 2, cq = 3\<rparr>, \<lparr>cid = 9, cx = 4, cy = 5, cq = -6\<rparr>],
       selectedId = Some 7, autoScale = False, rangeV = 25\<rparr>"]
  by (simp add: observable_def)

lemma loadCharge_None_iff: "loadCharge i s = None \<longleftrightarrow> \<not> finiteCharge s"
  by (cases "sx s"; cases "sy s"; cases "sq s") (simp_all add: finiteCharge_def)

lemma loadCharges_malformed:
  "list_ex (\<lambda>s. \<not> finiteCharge s) ss \<Longrightarrow> loadCharges i ss = None"
proof (induction ss arbitrary: i)
  case Nil
  then show ?case by simp
next
  case (Cons s ss)
  show ?case
  proof (cases "finiteCharge s")
    case True
    with Cons.prems have "list_ex (\<lambda>s. \<not> finiteCharge s) ss" by simp
    then have "loadCharges (Suc i) ss = None" by (rule Cons.IH)
    then show ?thesis by (simp split: option.splits del: loadCharge.simps)
  next
    case False
    then have "loadCharge i s = None" using loadCharge_None_iff [of i s] by blast
    then show ?thesis by (simp del: loadCharge.simps)
  qed
qed

text \<open>
  Claim C9. Loading a malformed mapping, one in which some charge has a non-finite
  coordinate or magnitude or in which the range is not finite, gives exactly the default
  empty scene, whatever the well-formed entries of the mapping are.
\<close>

theorem malformed_load_is_default:
  "malformed p \<Longrightarrow> loadScene p = defaultScene"
proof -
  assume "malformed p"
  then consider "list_ex (\<lambda>s. \<not> finiteCharge s) (s_charges p)" | "\<not> isFinite (s_rangeV p)"
    unfolding malformed_def by blast
  then show ?thesis
  proof cases
    case 1
    then have "loadCharges 0 (s_charges p) = None" by (rule loadCharges_malformed)
    then show ?thesis by (simp add: loadScene_def)
  next
    case 2
    then show ?thesis
      by (cases "s_rangeV p") (simp_all add: loadScene_def split: option.splits)
  qed
qed

theorem malformed_load_is_default_witness:
  "malformed \<lparr>s_charges = [\<lparr>sx = Num 1, sy = Num 2, sq = Num 3\<rparr>, \<lparr>sx = NaN, sy = Num 5, sq = Num 1\<rparr>],
              s_autoScale = False, s_rangeV = Num 25\<rparr>
   \<and> loadScene \<lparr>s_charges = [\<lparr>sx = Num 1, sy = Num 2, sq = Num 3\<rparr>, \<lparr>sx = NaN, sy = Num 5, sq = Num 1\<rparr>],
              s_autoScale = False, s_rangeV = Num 25\<rparr>
     = \<lparr>charges = [], selectedId = None, autoScale = True, rangeV = 40\<rparr>"
proof -
  let ?p = "\<lparr>s_charges = [\<lparr>sx = Num 1, sy = Num 2, sq = Num 3\<rparr>, \<lparr>sx = NaN, sy = Num 5, sq = Num 1\<rparr>],
              s_autoScale = False, s_rangeV = Num 25\<rparr>"
  have h: "malformed ?p" by (simp add: malformed_def finiteCharge_def)
  show ?thesis using h malformed_load_is_default [OF h] by (simp add: defaultScene_def)
qed

end
